theory Spec2Isabelle
  imports Main "HOL-Library.Sublist"
begin

section \<open>JavaScript values\<close>

text \<open>
  The arguments the frontend helpers receive. Strings are lists of code units; the
  characters that matter below are the ASCII ones and U+00A0 (\<open>CHR 0xA0\<close>).
\<close>

datatype jsval = Undefined | Null | Bool bool | Str string

text \<open>JavaScript truthiness: \<open>!str\<close> is true for undefined, null, false and the empty string.\<close>

fun truthy :: "jsval \<Rightarrow> bool" where
  "truthy Undefined = False"
| "truthy Null = False"
| "truthy (Bool b) = b"
| "truthy (Str s) = (s \<noteq> [])"

text \<open>The conversion \<open>String(v)\<close>.\<close>

fun String :: "jsval \<Rightarrow> string" where
  "String Undefined = ''undefined''"
| "String Null = ''null''"
| "String (Bool b) = (if b then ''true'' else ''false'')"
| "String (Str s) = s"

section \<open>shared.js: escapeHtml\<close>

text \<open>
  \<^verbatim>\<open>
  function escapeHtml(str) {
      if (!str) return '';
      const div = document.createElement('div');
      div.textContent = String(str);
      return div.innerHTML;
  }
  \<close>
  The function goes through the DOM: the \<open>textContent\<close> setter replaces the children of
  the element by one text node holding the string (by none when the string is empty), and
  the \<open>innerHTML\<close> getter serialises the children. The serialisation of a text node
  escapes its data as the HTML standard prescribes outside attribute mode: \<open>&\<close> becomes
  \<open>&amp;\<close>, U+00A0 becomes \<open>&nbsp;\<close>, \<open><\<close> becomes \<open>&lt;\<close> and \<open>>\<close> becomes \<open>&gt;\<close>.
\<close>

datatype dom_node = Text string

record element =
  tagName :: string
  childNodes :: "dom_node list"

definition createElement :: "string \<Rightarrow> element" where
  "createElement tag = \<lparr>tagName = tag, childNodes = []\<rparr>"

definition set_textContent :: "string \<Rightarrow> element \<Rightarrow> element" where
  "set_textContent s el = el\<lparr>childNodes := (if s = [] then [] else [Text s])\<rparr>"

definition nbsp :: char where
  "nbsp = CHR 0xA0"

fun escape_char :: "char \<Rightarrow> string" where
  "escape_char c =
     (if c = CHR ''&'' then ''&amp;''
      else if c = nbsp then ''&nbsp;''
      else if c = CHR ''<'' then ''&lt;''
      else if c = CHR ''>'' then ''&gt;''
      else [c])"

fun serialize_node :: "dom_node \<Rightarrow> string" where
  "serialize_node (Text d) = concat (map escape_char d)"

definition innerHTML :: "element \<Rightarrow> string" where
  "innerHTML el = concat (map serialize_node (childNodes el))"

definition escapeHtml :: "jsval \<Rightarrow> string" where
  "escapeHtml str =
     (if \<not> truthy str then ''''
      else innerHTML (set_textContent (String str) (createElement ''div'')))"

text \<open>
  The replacement the claim describes, written from its words: only \<open>&\<close>, \<open><\<close> and \<open>>\<close>
  are replaced and every other character is kept.
\<close>

fun replace_amp_lt_gt :: "string \<Rightarrow> string" where
  "replace_amp_lt_gt [] = []"
| "replace_amp_lt_gt (c # cs) =
     (if c = CHR ''&'' then ''&amp;''
      else if c = CHR ''<'' then ''&lt;''
      else if c = CHR ''>'' then ''&gt;''
      else [c]) @ replace_amp_lt_gt cs"

section \<open>sw.js: the offline upload queue\<close>

text \<open>
  A record of the IndexedDB object store \<open>offlineQueue\<close>, with the properties
  \<open>uploadQueuedChunks\<close> reads. The store is created with
  \<open>{ keyPath: 'id', autoIncrement: true }\<close>: the key of a record is its \<open>id\<close>.
\<close>

record queue_item =
  item_id :: nat
  blob :: string
  filename :: string
  sessionUuid :: string
  token :: string

text \<open>
  What \<open>fetch\<close> resolves with. The code reads \<open>status\<close> (through \<open>resp.ok\<close>) and
  \<open>type\<close>, never the body. The body is kept as what the remote endpoint may say in it:
  an acknowledgment of a session id and a sequence number, or none.
\<close>

record response =
  status :: nat
  rtype :: string
  acknowledgment :: "(string \<times> nat) option"

definition ok :: "response \<Rightarrow> bool" where
  "ok resp = (200 \<le> status resp \<and> status resp \<le> 299)"

datatype fetch_outcome = NetworkError | Response response

text \<open>
  \<^verbatim>\<open>
  const formData = new FormData();
  formData.append('audio', item.blob, item.filename);
  const resp = await fetch(`/api/session/${item.sessionUuid}/chunk`, {
      method: 'POST',
      headers: { 'Authorization': `Bearer ${item.token}` },
      body: formData
  });
  \<close>
  A form entry is its name, the blob and the file name.
\<close>

record http_request =
  url :: string
  http_method :: string
  headers :: "(string \<times> string) list"
  formData :: "(string \<times> string \<times> string) list"

definition upload_request :: "queue_item \<Rightarrow> http_request" where
  "upload_request item =
     \<lparr>url = ''/api/session/'' @ sessionUuid item @ ''/chunk'',
      http_method = ''POST'',
      headers = [(''Authorization'', ''Bearer '' @ token item)],
      formData = [(''audio'', blob item, filename item)]\<rparr>"

text \<open>
  What the platform does during one run of \<open>uploadQueuedChunks\<close>: whether the first
  \<open>openDB()\<close> resolves, whether the transaction and \<open>getAll\<close> succeed, what the
  \<open>fetch\<close> made for an entry settles with, and whether the \<open>openDB()\<close> made to delete
  that entry resolves. Keys are unique in an object store, so an entry stands for the one
  attempt made for it in the run.
\<close>

record sync_env =
  db_opens :: bool
  store_readable :: bool
  fetch_of :: "queue_item \<Rightarrow> fetch_outcome"
  delete_db_opens :: "queue_item \<Rightarrow> bool"

text \<open>\<open>store.getAll()\<close> returns the records in ascending order of their keys.\<close>

definition getAllFromStore :: "queue_item list \<Rightarrow> queue_item list" where
  "getAllFromStore store = sort_key item_id store"

text \<open>\<open>objectStore.delete(key)\<close> removes the record stored under the key.\<close>

definition delete_key :: "nat \<Rightarrow> queue_item list \<Rightarrow> queue_item list" where
  "delete_key k store = filter (\<lambda>r. item_id r \<noteq> k) store"

text \<open>
  \<^verbatim>\<open>
  for (const item of items) {
      try {
          ... const resp = await fetch(...);
          if (resp.ok) {
              // Remove from queue on success
              const delTx = (await openDB()).transaction('offlineQueue', 'readwrite');
              delTx.objectStore('offlineQueue').delete(item.id);
          }
      } catch (e) {
          console.warn(`[SW] Failed to upload chunk ${item.id}, will retry`, e);
      }
  }
  \<close>
  The loop runs over the snapshot \<open>items\<close>; the state is the object store and the
  entries attempted so far, in order, each with the request sent for it.
\<close>

fun upload_loop ::
  "sync_env \<Rightarrow> queue_item list \<Rightarrow> queue_item list \<Rightarrow> queue_item list \<times> (queue_item \<times> http_request) list"
where
  "upload_loop env [] store = (store, [])"
| "upload_loop env (item # items) store =
     (let req = upload_request item;
          store' =
            (case fetch_of env item of
               NetworkError \<Rightarrow> store
             | Response resp \<Rightarrow>
                 if ok resp then
                   (if delete_db_opens env item then delete_key (item_id item) store else store)
                 else store);
          (final, log) = upload_loop env items store'
      in (final, (item, req) # log))"

text \<open>
  \<^verbatim>\<open>
  async function uploadQueuedChunks() {
      try {
          const db = await openDB();
          const tx = db.transaction('offlineQueue', 'readonly');
          const store = tx.objectStore('offlineQueue');
          const items = await getAllFromStore(store);
          ...
      } catch (e) { console.error('[SW] Offline queue error:', e); }
  }
  \<close>
\<close>

definition uploadQueuedChunks ::
  "sync_env \<Rightarrow> queue_item list \<Rightarrow> queue_item list \<times> (queue_item \<times> http_request) list"
where
  "uploadQueuedChunks env store =
     (if \<not> db_opens env then (store, [])
      else if \<not> store_readable env then (store, [])
      else upload_loop env (getAllFromStore store) store)"

text \<open>
  \<^verbatim>\<open>
  self.addEventListener('sync', (event) => {
      if (event.tag === 'upload-audio-chunks') {
          event.waitUntil(uploadQueuedChunks());
      }
  });
  \<close>
\<close>

definition on_sync ::
  "string \<Rightarrow> sync_env \<Rightarrow> queue_item list \<Rightarrow> queue_item list \<times> (queue_item \<times> http_request) list"
where
  "on_sync tag env store =
     (if tag = ''upload-audio-chunks'' then uploadQueuedChunks env store else (store, []))"

definition attempted :: "queue_item list \<times> (queue_item \<times> http_request) list \<Rightarrow> queue_item list" where
  "attempted result = map fst (snd result)"

definition requests_sent :: "queue_item list \<times> (queue_item \<times> http_request) list \<Rightarrow> http_request list" where
  "requests_sent result = map snd (snd result)"

text \<open>Several sync events in a row, each with what the platform does during it.\<close>

fun sync_runs :: "sync_env list \<Rightarrow> queue_item list \<Rightarrow> queue_item list" where
  "sync_runs [] store = store"
| "sync_runs (env # envs) store = sync_runs envs (fst (on_sync ''upload-audio-chunks'' env store))"

text \<open>
  Reconciliation as the specification words it, for comparison with the code: given the
  highest sequence number the remote endpoint has confirmed for each session (none when
  it has confirmed nothing), exactly the local chunks above that number are enqueued
  again. The only number an entry of the queue has is its key.
\<close>

definition reenqueue_above :: "(string \<Rightarrow> nat option) \<Rightarrow> queue_item list \<Rightarrow> queue_item list" where
  "reenqueue_above highest local =
     filter (\<lambda>c. case highest (sessionUuid c) of None \<Rightarrow> True | Some h \<Rightarrow> h < item_id c) local"

text \<open>The fetch made for an entry resolved with a response whose \<open>ok\<close> flag is set.\<close>

definition upload_confirmed :: "sync_env \<Rightarrow> queue_item \<Rightarrow> bool" where
  "upload_confirmed env item =
     (case fetch_of env item of NetworkError \<Rightarrow> False | Response resp \<Rightarrow> ok resp)"

text \<open>
  The same run of the platform with other acknowledgments in the bodies of the responses.
\<close>

definition with_acknowledgments :: "(queue_item \<Rightarrow> (string \<times> nat) option) \<Rightarrow> sync_env \<Rightarrow> sync_env" where
  "with_acknowledgments a env =
     env\<lparr>fetch_of := (\<lambda>i. case fetch_of env i of
                               NetworkError \<Rightarrow> NetworkError
                             | Response resp \<Rightarrow> Response (resp\<lparr>acknowledgment := a i\<rparr>))\<rparr>"

text \<open>Example entries and runs, used to evaluate the definitions.\<close>

definition chunk_a :: queue_item where
  "chunk_a = \<lparr>item_id = 1, blob = ''RIFF'', filename = ''chunk.webm'', sessionUuid = ''s1'', token = ''t''\<rparr>"

definition chunk_b :: queue_item where
  "chunk_b = \<lparr>item_id = 2, blob = ''RIFF'', filename = ''chunk.webm'', sessionUuid = ''s1'', token = ''t''\<rparr>"

definition plain_200 :: response where
  "plain_200 = \<lparr>status = 200, rtype = ''basic'', acknowledgment = None\<rparr>"

definition env_plain_200 :: sync_env where
  "env_plain_200 = \<lparr>db_opens = True, store_readable = True,
      fetch_of = (\<lambda>i. Response plain_200), delete_db_opens = (\<lambda>i. True)\<rparr>"

definition env_offline :: sync_env where
  "env_offline = \<lparr>db_opens = True, store_readable = True,
      fetch_of = (\<lambda>i. NetworkError), delete_db_opens = (\<lambda>i. True)\<rparr>"

definition env_delete_fails :: sync_env where
  "env_delete_fails = \<lparr>db_opens = True, store_readable = True,
      fetch_of = (\<lambda>i. if item_id i = 1
                        then Response \<lparr>status = 200, rtype = ''basic'', acknowledgment = Some (''s1'', 1)\<rparr>
                        else NetworkError),
      delete_db_opens = (\<lambda>i. False)\<rparr>"

definition confirmed_up_to_1 :: "string \<Rightarrow> nat option" where
  "confirmed_up_to_1 sid = (if sid = ''s1'' then Some 1 else None)"




section \<open>sw.js: the fetch handler\<close>

text \<open>
  The request of a fetch event: its URL, its method, the path component that
  \<open>new URL(request.url).pathname\<close> yields, and its mode.
\<close>

record fetch_event =
  req_url :: string
  req_method :: string
  pathname :: string
  mode :: string

text \<open>
  The cache storage, keyed by URL. \<open>caches.match\<close> finds nothing for a request whose
  method is not GET, and \<open>cache.put\<close> rejects such a request, which leaves the cache as it
  was. Responses carry no headers here, so the rejection of a response with \<open>Vary: *\<close> by
  \<open>cache.put\<close> is not represented.
\<close>

type_synonym cache = "string \<rightharpoonup> response"

definition caches_match :: "cache \<Rightarrow> string \<Rightarrow> string \<Rightarrow> response option" where
  "caches_match c m u = (if m = ''GET'' then c u else None)"

definition cache_put :: "string \<Rightarrow> string \<Rightarrow> response \<Rightarrow> cache \<Rightarrow> cache" where
  "cache_put m u r c = (if m = ''GET'' then c(u \<mapsto> r) else c)"

text \<open>
  What the handler passes to \<open>event.respondWith\<close>: a response that came from the network,
  one that came from the cache, or a promise that rejects or resolves with no response.
\<close>

datatype responded = FromNetwork response | FromCache response | NoResponse

text \<open>
  \<^verbatim>\<open>
  self.addEventListener('fetch', (event) => {
      const { request } = event;
      const url = new URL(request.url);
      // Skip API requests - always go to network
      if (url.pathname.startsWith('/api/')) { return; }
      // For navigation requests, try network first, then cache
      if (request.mode === 'navigate') {
          event.respondWith(
              fetch(request).catch(() => {
                  return caches.match(request)
                      .then((response) => { return response || caches.match('/'); });
              }));
          return;
      }
      // For other requests, cache-first strategy
      event.respondWith(
          caches.match(request).then((cachedResponse) => {
              if (cachedResponse) { return cachedResponse; }
              return fetch(request).then((response) => {
                  if (!response || response.status !== 200 || response.type !== 'basic') {
                      return response;
                  }
                  const responseToCache = response.clone();
                  caches.open(CACHE_NAME).then((cache) => { cache.put(request, responseToCache); });
                  return response;
              });
          }));
  });
  \<close>
  The handler takes the event, what a \<open>fetch\<close> of the request settles with, and the
  cache; it returns what it responded with, \<open>None\<close> when it returned without calling
  \<open>respondWith\<close> (the browser then performs the request itself), and the cache afterwards.
\<close>

definition on_fetch :: "fetch_event \<Rightarrow> fetch_outcome \<Rightarrow> cache \<Rightarrow> responded option \<times> cache" where
  "on_fetch ev net c =
     (if prefix ''/api/'' (pathname ev) then (None, c)
      else if mode ev = ''navigate'' then
        (case net of
           Response r \<Rightarrow> (Some (FromNetwork r), c)
         | NetworkError \<Rightarrow>
             (case caches_match c (req_method ev) (req_url ev) of
                Some r \<Rightarrow> (Some (FromCache r), c)
              | None \<Rightarrow>
                  (case caches_match c ''GET'' ''/'' of
                     Some r \<Rightarrow> (Some (FromCache r), c)
                   | None \<Rightarrow> (Some NoResponse, c))))
      else
        (case caches_match c (req_method ev) (req_url ev) of
           Some r \<Rightarrow> (Some (FromCache r), c)
         | None \<Rightarrow>
             (case net of
                NetworkError \<Rightarrow> (Some NoResponse, c)
              | Response r \<Rightarrow>
                  if status r \<noteq> 200 \<or> rtype r \<noteq> ''basic'' then (Some (FromNetwork r), c)
                  else (Some (FromNetwork r), cache_put (req_method ev) (req_url ev) r c))))"

text \<open>An API request and a cache that holds an entry for its URL.\<close>

definition api_health :: fetch_event where
  "api_health = \<lparr>req_url = ''https://instabio.example/api/health'', req_method = ''GET'',
      pathname = ''/api/health'', mode = ''cors''\<rparr>"

definition cached_api :: cache where
  "cached_api = [''https://instabio.example/api/health'' \<mapsto> plain_200]"

section \<open>i18n.js: the current language and the text direction\<close>

text \<open>
  \<^verbatim>\<open>
  const SUPPORTED_LANGS = ['en', 'es', 'zh', 'hi', 'ar'];
  const RTL_LANGS = ['ar'];
  const STORAGE_KEY = 'instabio_lang';
  let _currentLang = 'en';
  let _translations = {};
  \<close>
\<close>

definition SUPPORTED_LANGS :: "string list" where
  "SUPPORTED_LANGS = [''en'', ''es'', ''zh'', ''hi'', ''ar'']"

definition RTL_LANGS :: "string list" where
  "RTL_LANGS = [''ar'']"

definition STORAGE_KEY :: string where
  "STORAGE_KEY = ''instabio_lang''"

text \<open>
  An element the engine translates: its three \<open>data-i18n\<close> attributes, its content (set
  as text or as markup) and its placeholder.
\<close>

datatype content = TextContent string | Markup string

record i18n_element =
  data_i18n :: "string option"
  data_i18n_placeholder :: "string option"
  data_i18n_html :: "string option"
  el_content :: content
  placeholder :: string

text \<open>
  The state the module works on: its two variables, \<open>localStorage\<close>, the \<open>lang\<close> and
  \<open>dir\<close> attributes of the document element, the elements to translate and the values
  of the language selectors of the page.
\<close>

record page =
  currentLang :: string
  i18n_translations :: "string \<rightharpoonup> string"
  localStorage :: "string \<rightharpoonup> string"
  doc_lang :: string
  doc_dir :: string
  elements :: "i18n_element list"
  lang_selects :: "string list"

text \<open>\<open>toLowerCase\<close>, on the letters A to Z.\<close>

definition toLowerCase :: "string \<Rightarrow> string" where
  "toLowerCase s =
     map (\<lambda>c. if (65::nat) \<le> of_char c \<and> (of_char c :: nat) \<le> 90
                 then char_of (of_char c + (32::nat)) else c) s"

text \<open>
  \<^verbatim>\<open>
  function getPreferredLang() {
      const saved = localStorage.getItem(STORAGE_KEY);
      if (saved && SUPPORTED_LANGS.includes(saved)) return saved;
      const browserLang = (navigator.language || '').slice(0, 2).toLowerCase();
      if (SUPPORTED_LANGS.includes(browserLang)) return browserLang;
      return 'en';
  }
  \<close>
\<close>

definition getPreferredLang :: "(string \<rightharpoonup> string) \<Rightarrow> string option \<Rightarrow> string" where
  "getPreferredLang storage navigator_language =
     (let saved = storage STORAGE_KEY;
          browserLang = toLowerCase (take 2 (case navigator_language of None \<Rightarrow> '''' | Some l \<Rightarrow> l))
      in case saved of
           Some s \<Rightarrow>
             if s \<noteq> [] \<and> s \<in> set SUPPORTED_LANGS then s
             else if browserLang \<in> set SUPPORTED_LANGS then browserLang else ''en''
         | None \<Rightarrow> if browserLang \<in> set SUPPORTED_LANGS then browserLang else ''en'')"

text \<open>
  \<open>loadTranslations\<close> never throws: a failed fetch, a response that is not ok and a body
  that is not JSON all give the empty object. \<open>files lang\<close> is what the language file
  holds, \<open>None\<close> when it cannot be loaded.
\<close>

definition loadTranslations ::
  "(string \<Rightarrow> (string \<rightharpoonup> string) option) \<Rightarrow> string \<Rightarrow> (string \<rightharpoonup> string)" where
  "loadTranslations files lang = (case files lang of None \<Rightarrow> Map.empty | Some tr \<Rightarrow> tr)"

text \<open>
  \<^verbatim>\<open>
  function applyTranslations() {
      document.querySelectorAll('[data-i18n]').forEach(el => {
          const key = el.getAttribute('data-i18n');
          if (_translations[key] !== undefined) { el.textContent = _translations[key]; }
      });
      ... the same for data-i18n-placeholder (el.placeholder) and data-i18n-html (el.innerHTML)
      document.documentElement.lang = _currentLang;
      if (RTL_LANGS.includes(_currentLang)) {
          document.documentElement.dir = 'rtl';
      } else {
          document.documentElement.dir = 'ltr';
      }
      document.querySelectorAll('.instabio-lang-select').forEach(sel => {
          sel.value = _currentLang;
      });
  }
  \<close>
  A key counts as translated when the loaded object has it as a property of its own; the
  properties every object inherits (such as \<open>constructor\<close>) are not represented. A
  selector is taken to offer the current language among its options, as the selectors
  built by \<open>createLangSelector\<close> do; one that does not would take the empty value.
\<close>

definition translate_element :: "(string \<rightharpoonup> string) \<Rightarrow> i18n_element \<Rightarrow> i18n_element" where
  "translate_element tr el =
     (let el1 = (case data_i18n el of
                   None \<Rightarrow> el
                 | Some key \<Rightarrow> (case tr key of None \<Rightarrow> el | Some v \<Rightarrow> el\<lparr>el_content := TextContent v\<rparr>));
          el2 = (case data_i18n_placeholder el1 of
                   None \<Rightarrow> el1
                 | Some key \<Rightarrow> (case tr key of None \<Rightarrow> el1 | Some v \<Rightarrow> el1\<lparr>placeholder := v\<rparr>))
      in (case data_i18n_html el2 of
            None \<Rightarrow> el2
          | Some key \<Rightarrow> (case tr key of None \<Rightarrow> el2 | Some v \<Rightarrow> el2\<lparr>el_content := Markup v\<rparr>)))"

definition applyTranslations :: "page \<Rightarrow> page" where
  "applyTranslations p =
     p\<lparr>elements := map (translate_element (i18n_translations p)) (elements p),
       doc_lang := currentLang p,
       doc_dir := (if currentLang p \<in> set RTL_LANGS then ''rtl'' else ''ltr''),
       lang_selects := map (\<lambda>sel. currentLang p) (lang_selects p)\<rparr>"

text \<open>
  \<^verbatim>\<open>
  async function setLanguage(lang) {
      if (!SUPPORTED_LANGS.includes(lang)) lang = 'en';
      _currentLang = lang;
      localStorage.setItem(STORAGE_KEY, lang);
      _translations = await loadTranslations(lang);
      applyTranslations();
  }
  \<close>
  The function runs in two parts: up to the \<open>await\<close>, and from the moment the
  translations are loaded. Other calls can run between the two.
\<close>

definition normalize_lang :: "jsval \<Rightarrow> string" where
  "normalize_lang lang =
     (case lang of
        Str s \<Rightarrow> if s \<in> set SUPPORTED_LANGS then s else ''en''
      | _ \<Rightarrow> ''en'')"

definition setLanguage_begin :: "jsval \<Rightarrow> page \<Rightarrow> page" where
  "setLanguage_begin lang p =
     (let lang' = normalize_lang lang;
          p1 = p\<lparr>currentLang := lang'\<rparr>
      in p1\<lparr>localStorage := (localStorage p1)(STORAGE_KEY \<mapsto> lang')\<rparr>)"

definition setLanguage_finish :: "(string \<rightharpoonup> string) \<Rightarrow> page \<Rightarrow> page" where
  "setLanguage_finish loaded p = applyTranslations (p\<lparr>i18n_translations := loaded\<rparr>)"

definition setLanguage :: "(string \<Rightarrow> (string \<rightharpoonup> string) option) \<Rightarrow> jsval \<Rightarrow> page \<Rightarrow> page" where
  "setLanguage files lang p =
     setLanguage_finish (loadTranslations files (normalize_lang lang)) (setLanguage_begin lang p)"

text \<open>
  \<^verbatim>\<open>
  const preferred = getPreferredLang();
  _currentLang = preferred;
  if (document.readyState === 'loading') {
      document.addEventListener('DOMContentLoaded', () => { setLanguage(preferred); });
  } else {
      setLanguage(preferred);
  }
  \<close>
  \<open>module_load\<close> is the state once the script has run, \<open>auto_init\<close> the state once the
  call of \<open>setLanguage\<close> it makes, at once or on \<open>DOMContentLoaded\<close>, has completed.
\<close>

definition module_load :: "string option \<Rightarrow> page \<Rightarrow> page" where
  "module_load navigator_language doc =
     (let p0 = doc\<lparr>currentLang := ''en'', i18n_translations := Map.empty\<rparr>;
          preferred = getPreferredLang (localStorage p0) navigator_language
      in p0\<lparr>currentLang := preferred\<rparr>)"

definition auto_init ::
  "(string \<Rightarrow> (string \<rightharpoonup> string) option) \<Rightarrow> string option \<Rightarrow> page \<Rightarrow> page" where
  "auto_init files navigator_language doc =
     (let p = module_load navigator_language doc
      in setLanguage files (Str (currentLang p)) p)"

text \<open>
  What can happen to the page after the script has run, in any order: a call of
  \<open>setLanguage\<close> runs up to its \<open>await\<close>, a pending call resumes with the translations it
  loaded and completes, or \<open>applyTranslations\<close> is called from outside (the navigation bar
  does so). The last two are the points where a call completes.
\<close>

datatype i18n_event = Begin jsval | Finish "string \<rightharpoonup> string" | Apply

fun i18n_step :: "page \<Rightarrow> i18n_event \<Rightarrow> page" where
  "i18n_step p (Begin lang) = setLanguage_begin lang p"
| "i18n_step p (Finish loaded) = setLanguage_finish loaded p"
| "i18n_step p Apply = applyTranslations p"

fun completes :: "i18n_event \<Rightarrow> bool" where
  "completes (Begin lang) = False"
| "completes (Finish loaded) = True"
| "completes Apply = True"

text \<open>The argument is one of the supported codes.\<close>

definition supported_arg :: "jsval \<Rightarrow> bool" where
  "supported_arg lang = (case lang of Str s \<Rightarrow> s \<in> set SUPPORTED_LANGS | _ \<Rightarrow> False)"

text \<open>
  The invariant of the claim: the current language is one of the five codes, and the
  direction of the document is \<open>rtl\<close> exactly when the language is \<open>ar\<close>.
\<close>

definition lang_invariant :: "page \<Rightarrow> bool" where
  "lang_invariant p =
     (currentLang p \<in> {''en'', ''es'', ''zh'', ''hi'', ''ar''} \<and>
      (doc_dir p = ''rtl'') = (currentLang p = ''ar''))"

text \<open>A page with nothing on it, and a server that has no language file.\<close>

definition blank_page :: page where
  "blank_page = \<lparr>currentLang = '''', i18n_translations = Map.empty, localStorage = Map.empty,
      doc_lang = '''', doc_dir = '''', elements = [], lang_selects = []\<rparr>"

definition no_files :: "string \<Rightarrow> (string \<rightharpoonup> string) option" where
  "no_files lang = None"

section \<open>The capture pipeline, from the specification\<close>

text \<open>
  Modelled from the spec: the Chunk of the data model (section 3), with its session
  identifier, its sequence number and its duration in time units. The recording page that
  creates chunks is not among the source files.
\<close>

record chunk =
  sessionId :: string
  sequence :: nat
  duration :: nat

text \<open>
  Modelled from the spec: the error of \<open>put(chunk) -> ok|IOError\<close> of the Durable Local
  Store (section 4.2), which is not among the source files.
\<close>

datatype store_error = IOError

text \<open>
  Modelled from the spec: the state of the capture process, which is not among the source
  files. \<open>sealed_chunks\<close> is the Durable Local Store and survives the death of the
  process. The rest is lost with it: whether the process runs, the session being recorded,
  the next sequence number of the Chunk Assembler (section 4.1), the duration of the audio
  held in its ring buffer and not sealed yet, and whether the Session State Machine
  (section 4.3) is in \<open>Interrupted\<close>. \<open>elapsed\<close> measures, for each session, the audio
  captured so far; nothing reads it.
\<close>

record recorder =
  chunkDuration :: nat
  running :: bool
  sealed_chunks :: "chunk list"
  active :: "string option"
  nextSequence :: nat
  buffered :: nat
  interrupted :: bool
  elapsed :: "string \<Rightarrow> nat"

text \<open>
  Modelled from the spec: \<open>put\<close> of the Durable Local Store (section 4.2), absent from the
  source files. The write is atomic: the chunk is fully persisted, or an error is returned
  and nothing of it is observable. \<open>disk_ok\<close> says whether the disk takes the write.
\<close>

definition put :: "bool \<Rightarrow> chunk \<Rightarrow> chunk list \<Rightarrow> store_error + chunk list" where
  "put disk_ok c chunks = (if disk_ok then Inr (chunks @ [c]) else Inl IOError)"

text \<open>
  Modelled from the spec: \<open>listSealed(sessionId)\<close> of the Durable Local Store (section
  4.2), absent from the source files: the chunks of the session, in the order they were
  sealed.
\<close>

definition listSealed :: "recorder \<Rightarrow> string \<Rightarrow> chunk list" where
  "listSealed r sid = filter (\<lambda>c. sessionId c = sid) (sealed_chunks r)"

text \<open>
  Modelled from the spec: the cumulative sealed duration of a session (section 3), absent
  from the source files.
\<close>

definition sealed_duration :: "recorder \<Rightarrow> string \<Rightarrow> nat" where
  "sealed_duration r sid = sum_list (map duration (listSealed r sid))"

text \<open>
  Modelled from the spec: sealing, by the Chunk Assembler (section 4.1), absent from the
  source files. The buffered audio becomes a chunk with the next sequence number and is
  handed to the store with a blocking write. If the write fails, the failure is signalled
  to the Session State Machine, which goes to \<open>Interrupted\<close>, and the audio stays in the
  ring buffer to be sealed again.
\<close>

definition seal :: "bool \<Rightarrow> recorder \<Rightarrow> recorder" where
  "seal disk_ok r =
     (case active r of
        None \<Rightarrow> r
      | Some sid \<Rightarrow>
          if buffered r = 0 then r
          else (case put disk_ok \<lparr>sessionId = sid, sequence = nextSequence r, duration = buffered r\<rparr>
                       (sealed_chunks r) of
                  Inl e \<Rightarrow> r\<lparr>interrupted := True\<rparr>
                | Inr chunks \<Rightarrow>
                    r\<lparr>sealed_chunks := chunks, nextSequence := nextSequence r + 1, buffered := 0\<rparr>))"

text \<open>
  Modelled from the spec: what happens to the capture process (sections 4.1, 4.3, 4.4 and
  4.6), absent from the source files. The user starts or resumes recording a session; one
  time unit of audio arrives; the buffer is flushed; an external event interrupts the
  capture; the capture resumes; the user stops; the process is killed; the process is
  started again. An event that seals carries whether the disk takes the write.
\<close>

datatype event =
    Start string | Audio bool | Flush bool | Interrupt bool | Resume bool | Stop bool
  | Crash | Restart

text \<open>
  Modelled from the spec: one step of the capture process, absent from the source files.
  Recording a session starts at the sequence number the store gives, the number of chunks
  it holds for the session (the persisted state is the sole source of truth, section 6).
  Audio is captured only while recording and not interrupted, and the chunk is sealed on
  the duration boundary. A flush, an interruption and a stop seal what is buffered. A
  resumption seals the backlog first and goes back to recording once nothing is pending. A
  kill loses everything but the store. Nothing happens in a process that does not run
  until it is started again.
\<close>

fun capture_step :: "recorder \<Rightarrow> event \<Rightarrow> recorder" where
  "capture_step r (Start sid) =
     (if running r \<and> active r = None
      then r\<lparr>active := Some sid, nextSequence := length (listSealed r sid), buffered := 0,
             interrupted := False\<rparr>
      else r)"
| "capture_step r (Audio disk_ok) =
     (case active r of
        None \<Rightarrow> r
      | Some sid \<Rightarrow>
          if running r \<and> \<not> interrupted r then
            (let r' = r\<lparr>buffered := buffered r + 1, elapsed := (elapsed r)(sid := elapsed r sid + 1)\<rparr>
             in if chunkDuration r' \<le> buffered r' then seal disk_ok r' else r')
          else r)"
| "capture_step r (Flush disk_ok) = (if running r then seal disk_ok r else r)"
| "capture_step r (Interrupt disk_ok) =
     (if running r \<and> active r \<noteq> None then (seal disk_ok r)\<lparr>interrupted := True\<rparr> else r)"
| "capture_step r (Resume disk_ok) =
     (if running r \<and> active r \<noteq> None \<and> interrupted r then
        (let r' = seal disk_ok r in if buffered r' = 0 then r'\<lparr>interrupted := False\<rparr> else r')
      else r)"
| "capture_step r (Stop disk_ok) =
     (if running r \<and> active r \<noteq> None then
        (let r' = seal disk_ok r in if buffered r' = 0 then r'\<lparr>active := None\<rparr> else r')
      else r)"
| "capture_step r Crash =
     r\<lparr>running := False, active := None, nextSequence := 0, buffered := 0, interrupted := False\<rparr>"
| "capture_step r Restart = (if running r then r else r\<lparr>running := True\<rparr>)"

text \<open>
  Modelled from the spec: the capture process at its first start, with the configured
  chunk duration and an empty store, and the state it reaches after a list of events;
  absent from the source files.
\<close>

definition recorder_init :: "nat \<Rightarrow> recorder" where
  "recorder_init d = \<lparr>chunkDuration = d, running = True, sealed_chunks = [], active = None,
     nextSequence = 0, buffered = 0, interrupted = False, elapsed = (\<lambda>sid. 0)\<rparr>"

definition capture_run :: "nat \<Rightarrow> event list \<Rightarrow> recorder" where
  "capture_run d evs = foldl capture_step (recorder_init d) evs"

text \<open>
  The invariant behind the gapless sequence numbers: the chunks of every session are
  numbered from 0 in the order they were sealed, and the assembler's next number for the
  session being recorded is the number of chunks the store holds for it.
\<close>

definition gapless :: "recorder \<Rightarrow> bool" where
  "gapless r = ((\<forall>sid. map sequence (listSealed r sid) = [0..<length (listSealed r sid)]) \<and>
     (\<forall>sid. active r = Some sid \<longrightarrow> nextSequence r = length (listSealed r sid)))"

text \<open>
  The audio of a session that is captured and not sealed yet: what the ring buffer holds
  while the session is being recorded. This is what a kill loses.
\<close>

definition unsealed :: "recorder \<Rightarrow> string \<Rightarrow> nat" where
  "unsealed r sid = (if active r = Some sid then buffered r else 0)"

text \<open>
  The invariant behind the bound on the loss, kept by every event, a kill included: the
  buffer never holds more than one chunk duration, it holds less while capture goes on,
  and it is empty when no session is recorded.
\<close>

definition buffer_bounded :: "recorder \<Rightarrow> bool" where
  "buffer_bounded r =
     (buffered r \<le> chunkDuration r \<and>
      (\<not> interrupted r \<longrightarrow> buffered r < chunkDuration r) \<and>
      (active r = None \<longrightarrow> buffered r = 0) \<and>
      0 < chunkDuration r)"

text \<open>
  A history splits at its last kill: the events up to and including that kill (none when
  the process was never killed), and the events of the life of the process since.
\<close>

definition up_to_last_kill :: "event list \<Rightarrow> event list" where
  "up_to_last_kill evs = rev (dropWhile (\<lambda>e. e \<noteq> Crash) (rev evs))"

definition since_last_kill :: "event list \<Rightarrow> event list" where
  "since_last_kill evs = rev (takeWhile (\<lambda>e. e \<noteq> Crash) (rev evs))"

text \<open>
  A recording of three time units with chunks of two, one with a crash in it, and a
  session that is killed after two time units, resumed, and recorded for two more.
\<close>

definition three_units :: "event list" where
  "three_units = [Start ''s'', Audio True, Audio True, Audio True]"

definition seal_crash_restart :: "event list" where
  "seal_crash_restart =
     [Start ''s'', Audio True, Audio True, Audio True, Crash, Restart, Start ''s'', Audio True, Flush True]"

definition two_kills :: "event list" where
  "two_kills =
     [Start ''s'', Audio True, Audio True, Crash, Restart, Start ''s'', Audio True, Audio True]"

section \<open>Properties of escapeHtml\<close>

lemma escapeHtml_Str:
  "s \<noteq> [] \<Longrightarrow> escapeHtml (Str s) = concat (map escape_char s)"
  by (simp add: escapeHtml_def innerHTML_def set_textContent_def createElement_def)

lemma escape_without_nbsp:
  "nbsp \<notin> set s \<Longrightarrow> concat (map escape_char s) = replace_amp_lt_gt s"
  by (induction s) auto

lemma escape_char_quote:
  "c = CHR 0x22 \<or> c = CHR 0x27 \<Longrightarrow> escape_char c = [c]"
  by (auto simp: nbsp_def)

text \<open>
  C8, as the code has it. A falsy argument (undefined, null, the empty string) gives the
  empty string. For a non-empty string the result is the string with \<open>&\<close>, \<open><\<close>, \<open>>\<close>
  and also U+00A0 replaced by their entities, every other character kept, the two quote
  characters among them; for a string with no U+00A0 this is the replacement of
  \<open>&\<close>, \<open><\<close> and \<open>>\<close> alone.
\<close>

theorem escapeHtml_spec:
  "escapeHtml Undefined = '''' \<and> escapeHtml Null = '''' \<and> escapeHtml (Str '''') = '''' \<and>
   (s \<noteq> [] \<longrightarrow>
      escapeHtml (Str s) =
        concat (map (\<lambda>c. if c = CHR ''&'' then ''&amp;''
                          else if c = CHR 0xA0 then ''&nbsp;''
                          else if c = CHR ''<'' then ''&lt;''
                          else if c = CHR ''>'' then ''&gt;''
                          else [c]) s)) \<and>
   (s \<noteq> [] \<and> CHR 0xA0 \<notin> set s \<longrightarrow> escapeHtml (Str s) = replace_amp_lt_gt s) \<and>
   (\<forall>q \<in> {CHR 0x22, CHR 0x27}. escapeHtml (Str (pre @ q # post)) =
        escapeHtml (Str pre) @ [q] @ escapeHtml (Str post))"
proof -
  have falsy: "escapeHtml Undefined = ''''" "escapeHtml Null = ''''" "escapeHtml (Str '''') = ''''"
    by (simp_all add: escapeHtml_def)
  have ec: "escape_char = (\<lambda>c. if c = CHR ''&'' then ''&amp;''
                          else if c = CHR 0xA0 then ''&nbsp;''
                          else if c = CHR ''<'' then ''&lt;''
                          else if c = CHR ''>'' then ''&gt;''
                          else [c])"
    by (rule ext) (simp add: nbsp_def)
  have full: "s \<noteq> [] \<longrightarrow> escapeHtml (Str s) = concat (map escape_char s)"
    by (simp add: escapeHtml_Str)
  have plain: "s \<noteq> [] \<and> CHR 0xA0 \<notin> set s \<longrightarrow> escapeHtml (Str s) = replace_amp_lt_gt s"
    using escape_without_nbsp [of s] by (simp add: escapeHtml_Str nbsp_def)
  have any: "escapeHtml (Str t) = concat (map escape_char t)" for t
  proof (cases "t = []")
    case True
    then show ?thesis by (simp add: escapeHtml_def)
  next
    case False
    then show ?thesis by (rule escapeHtml_Str)
  qed
  have quotes: "\<forall>q \<in> {CHR 0x22, CHR 0x27}. escapeHtml (Str (pre @ q # post)) =
        escapeHtml (Str pre) @ [q] @ escapeHtml (Str post)"
    using escape_char_quote by (simp add: any nbsp_def)
  show ?thesis
    using falsy full plain quotes unfolding ec by blast
qed

theorem escapeHtml_spec_witness:
  "''a<b'' \<noteq> [] \<and> CHR 0xA0 \<notin> set ''a<b'' \<and>
   escapeHtml (Str ''a<b'') = ''a&lt;b'' \<and>
   replace_amp_lt_gt ''a<b'' = ''a&lt;b'' \<and>
   escapeHtml (Str (''x'' @ CHR 0x22 # ''y'')) = escapeHtml (Str ''x'') @ [CHR 0x22] @ escapeHtml (Str ''y'')"
  using escapeHtml_spec [of "''a<b''" "''x''" "''y''"] by simp

text \<open>
  The claim as stated fails on a string holding U+00A0: the code returns \<open>&nbsp;\<close>, and
  replacing \<open>&\<close>, \<open><\<close> and \<open>>\<close> alone would return the string itself.
\<close>

theorem escapeHtml_nbsp_counterexample:
  "escapeHtml (Str [CHR 0xA0]) = ''&nbsp;'' \<and> replace_amp_lt_gt [CHR 0xA0] = [CHR 0xA0] \<and>
   escapeHtml (Str [CHR 0xA0]) \<noteq> replace_amp_lt_gt [CHR 0xA0]"
  by (simp add: escapeHtml_def innerHTML_def set_textContent_def createElement_def nbsp_def)

section \<open>Properties of the offline upload queue\<close>

lemma upload_loop_log:
  "snd (upload_loop env items store) = map (\<lambda>i. (i, upload_request i)) items"
  by (induction items arbitrary: store) (simp_all add: Let_def case_prod_beta)

lemma upload_loop_store:
  "fst (upload_loop env items store) =
     filter (\<lambda>r. \<forall>i \<in> set items. \<not> (upload_confirmed env i \<and> delete_db_opens env i \<and> item_id i = item_id r)) store"
proof (induction items arbitrary: store)
  case Nil
  then show ?case by simp
next
  case (Cons a items)
  show ?case
    by (cases "fetch_of env a")
       (auto simp: Let_def case_prod_beta upload_confirmed_def delete_key_def Cons intro: filter_cong)
qed

lemma log_uploadQueuedChunks:
  "snd (uploadQueuedChunks env store) =
     (if db_opens env \<and> store_readable env
      then map (\<lambda>i. (i, upload_request i)) (getAllFromStore store) else [])"
  by (simp add: uploadQueuedChunks_def upload_loop_log)

lemma attempted_uploadQueuedChunks:
  "attempted (uploadQueuedChunks env store) =
     (if db_opens env \<and> store_readable env then getAllFromStore store else [])"
  by (simp add: attempted_def uploadQueuedChunks_def upload_loop_log comp_def)

lemma requests_uploadQueuedChunks:
  "requests_sent (uploadQueuedChunks env store) = map upload_request (attempted (uploadQueuedChunks env store))"
  by (simp add: attempted_def requests_sent_def uploadQueuedChunks_def upload_loop_log comp_def)

lemma store_uploadQueuedChunks:
  "fst (uploadQueuedChunks env store) =
     filter (\<lambda>r. \<not> (db_opens env \<and> store_readable env \<and>
        (\<exists>i \<in> set store. upload_confirmed env i \<and> delete_db_opens env i \<and> item_id i = item_id r))) store"
  by (auto simp: uploadQueuedChunks_def upload_loop_store getAllFromStore_def intro: filter_cong)

lemma removed_needs_confirmed:
  assumes "distinct (map item_id store)" "i \<in> set store" "i \<notin> set (fst (uploadQueuedChunks env store))"
  shows "upload_confirmed env i \<and> delete_db_opens env i \<and> db_opens env \<and> store_readable env"
proof -
  from assms(2,3) obtain j where j: "j \<in> set store" "upload_confirmed env j" "delete_db_opens env j"
      "item_id j = item_id i" "db_opens env" "store_readable env"
    by (auto simp: store_uploadQueuedChunks)
  from assms(1) have "inj_on item_id (set store)" by (simp add: distinct_map)
  with j(1,4) assms(2) have "j = i" by (auto dest: inj_onD)
  with j show ?thesis by simp
qed


lemma upload_confirmed_with_acknowledgments:
  "upload_confirmed (with_acknowledgments a env) i = upload_confirmed env i"
  by (simp add: upload_confirmed_def with_acknowledgments_def ok_def split: fetch_outcome.splits)

lemma with_acknowledgments_fields:
  "db_opens (with_acknowledgments a env) = db_opens env"
  "store_readable (with_acknowledgments a env) = store_readable env"
  "delete_db_opens (with_acknowledgments a env) = delete_db_opens env"
  by (simp_all add: with_acknowledgments_def)

lemma uploadQueuedChunks_with_acknowledgments:
  "uploadQueuedChunks (with_acknowledgments a env) store = uploadQueuedChunks env store"
proof (rule prod_eqI)
  show "fst (uploadQueuedChunks (with_acknowledgments a env) store) = fst (uploadQueuedChunks env store)"
    by (simp add: store_uploadQueuedChunks upload_confirmed_with_acknowledgments
        with_acknowledgments_fields)
  show "snd (uploadQueuedChunks (with_acknowledgments a env) store) = snd (uploadQueuedChunks env store)"
    by (simp add: log_uploadQueuedChunks with_acknowledgments_fields)
qed

lemma upload_request_eq_iff:
  "(upload_request i = upload_request j) =
     (sessionUuid i = sessionUuid j \<and> token i = token j \<and> blob i = blob j \<and> filename i = filename j)"
  by (auto simp: upload_request_def)

lemma set_getAllFromStore: "set (getAllFromStore store) = set store"
  by (simp add: getAllFromStore_def)


lemma not_confirmed_iff:
  "(\<not> upload_confirmed env i) =
     (fetch_of env i = NetworkError \<or> (\<exists>resp. fetch_of env i = Response resp \<and> \<not> ok resp))"
  by (cases "fetch_of env i") (simp_all add: upload_confirmed_def)

lemma confirmed_iff:
  "upload_confirmed env i = (\<exists>resp. fetch_of env i = Response resp \<and> ok resp)"
  by (cases "fetch_of env i") (simp_all add: upload_confirmed_def)

lemma kept_when_not_confirmed:
  assumes "i \<in> set store" "\<not> upload_confirmed env i" "distinct (map item_id store)"
  shows "i \<in> set (fst (uploadQueuedChunks env store))"
  using removed_needs_confirmed [OF assms(3) assms(1), of env] assms(2) by blast

lemma distinct_after_run:
  "distinct (map item_id store) \<Longrightarrow> distinct (map item_id (fst (uploadQueuedChunks env store)))"
  by (simp add: store_uploadQueuedChunks distinct_map_filter)

lemma run_unchanged_when_none_confirmed:
  "\<forall>i \<in> set store. \<not> upload_confirmed env i \<Longrightarrow> fst (uploadQueuedChunks env store) = store"
  by (simp add: store_uploadQueuedChunks)

lemma sync_runs_unchanged:
  "\<forall>env \<in> set envs. \<forall>i \<in> set store. \<not> upload_confirmed env i \<Longrightarrow> sync_runs envs store = store"
  by (induction envs arbitrary: store) (simp_all add: on_sync_def run_unchanged_when_none_confirmed)

lemma sync_runs_removed:
  "distinct (map item_id store) \<Longrightarrow> i \<in> set store \<Longrightarrow> i \<notin> set (sync_runs envs store) \<Longrightarrow>
     \<exists>env \<in> set envs. upload_confirmed env i"
proof (induction envs arbitrary: store)
  case Nil
  then show ?case by simp
next
  case (Cons env envs)
  show ?case
  proof (cases "i \<in> set (fst (uploadQueuedChunks env store))")
    case True
    with Cons.IH [OF distinct_after_run [OF Cons.prems(1)] True] Cons.prems(3)
    show ?thesis by (simp add: on_sync_def)
  next
    case False
    from removed_needs_confirmed [OF Cons.prems(1,2) False] show ?thesis by simp
  qed
qed

text \<open>
  C2, as the code has it. An entry leaves the queue during a run only if the fetch made for
  it resolved with a response whose \<open>ok\<close> flag is set, that is with a status from 200 to
  299; and the run is the same whatever acknowledgment the responses carry, since the body
  of a response is never read.
\<close>

theorem removal_only_after_ok_response:
  "(distinct (map item_id store) \<and> i \<in> set store \<and> i \<notin> set (fst (uploadQueuedChunks env store)) \<longrightarrow>
      (\<exists>resp. fetch_of env i = Response resp \<and> 200 \<le> status resp \<and> status resp \<le> 299)) \<and>
   uploadQueuedChunks (with_acknowledgments a env) store = uploadQueuedChunks env store"
proof -
  have "\<exists>resp. fetch_of env i = Response resp \<and> 200 \<le> status resp \<and> status resp \<le> 299"
    if "distinct (map item_id store)" "i \<in> set store" "i \<notin> set (fst (uploadQueuedChunks env store))"
  proof -
    from removed_needs_confirmed [OF that] have "upload_confirmed env i" by simp
    then show ?thesis
      by (cases "fetch_of env i") (simp_all add: upload_confirmed_def ok_def)
  qed
  then show ?thesis
    by (simp add: uploadQueuedChunks_with_acknowledgments)
qed

lemma run_plain_200: "fst (uploadQueuedChunks env_plain_200 [chunk_a]) = []"
  by (simp add: uploadQueuedChunks_def getAllFromStore_def env_plain_200_def plain_200_def
      ok_def delete_key_def Let_def)

theorem removal_only_after_ok_response_witness:
  "distinct (map item_id [chunk_a]) \<and> chunk_a \<in> set [chunk_a] \<and>
   chunk_a \<notin> set (fst (uploadQueuedChunks env_plain_200 [chunk_a])) \<and>
   (\<exists>resp. fetch_of env_plain_200 chunk_a = Response resp \<and> 200 \<le> status resp \<and> status resp \<le> 299)"
proof -
  have h: "distinct (map item_id [chunk_a]) \<and> chunk_a \<in> set [chunk_a] \<and>
      chunk_a \<notin> set (fst (uploadQueuedChunks env_plain_200 [chunk_a]))"
    by (simp add: run_plain_200)
  from removal_only_after_ok_response [of "[chunk_a]" chunk_a env_plain_200] h
  show ?thesis by blast
qed

text \<open>
  The claim as stated fails: a response with status 200 and no acknowledgment at all
  removes the entry.
\<close>

theorem removed_on_plain_200_counterexample:
  "fetch_of env_plain_200 chunk_a = Response \<lparr>status = 200, rtype = ''basic'', acknowledgment = None\<rparr> \<and>
   fst (uploadQueuedChunks env_plain_200 [chunk_a]) = []"
  by (simp add: run_plain_200) (simp add: env_plain_200_def plain_200_def)

text \<open>
  C3, as the code has it. The upload request carries the session id (in the path of the
  URL), the bearer token, the blob and its file name, and nothing else of the entry: two
  entries yield the same request exactly when they agree on these four. An entry that is
  still in the queue after a run is sent again by the next run with the very same request.
  Whether the second submission creates a second remote record is decided by the remote
  endpoint, which this code does not contain.
\<close>

theorem upload_request_carries:
  "((upload_request i = upload_request j) =
     (sessionUuid i = sessionUuid j \<and> token i = token j \<and> blob i = blob j \<and> filename i = filename j)) \<and>
   (db_opens env \<and> store_readable env \<and> db_opens env' \<and> store_readable env' \<and>
    i \<in> set store \<and> i \<in> set (fst (uploadQueuedChunks env store)) \<longrightarrow>
      (i, upload_request i) \<in> set (snd (uploadQueuedChunks env store)) \<and>
      (i, upload_request i) \<in> set (snd (uploadQueuedChunks env' (fst (uploadQueuedChunks env store)))))"
  by (simp add: upload_request_eq_iff log_uploadQueuedChunks set_getAllFromStore)

theorem upload_request_carries_witness:
  "db_opens env_offline \<and> store_readable env_offline \<and> chunk_a \<in> set [chunk_a] \<and>
   chunk_a \<in> set (fst (uploadQueuedChunks env_offline [chunk_a])) \<and>
   (chunk_a, upload_request chunk_a) \<in> set (snd (uploadQueuedChunks env_offline [chunk_a])) \<and>
   (chunk_a, upload_request chunk_a) \<in>
      set (snd (uploadQueuedChunks env_offline (fst (uploadQueuedChunks env_offline [chunk_a]))))"
proof -
  have h: "db_opens env_offline \<and> store_readable env_offline \<and> chunk_a \<in> set [chunk_a] \<and>
      chunk_a \<in> set (fst (uploadQueuedChunks env_offline [chunk_a]))"
    by (simp add: uploadQueuedChunks_def getAllFromStore_def env_offline_def Let_def)
  from upload_request_carries [of chunk_a chunk_a env_offline env_offline "[chunk_a]"] h
  show ?thesis by blast
qed

text \<open>
  The claim as stated fails: two entries of one session with different numbers yield the
  same request, so the request carries no sequence number (and no checksum is computed).
\<close>

theorem request_omits_sequence_counterexample:
  "item_id chunk_a \<noteq> item_id chunk_b \<and> sessionUuid chunk_a = sessionUuid chunk_b \<and>
   upload_request chunk_a = upload_request chunk_b"
  by (simp add: upload_request_def chunk_a_def chunk_b_def)




text \<open>
  C6. An entry whose upload fails, by a network error or by a response that is not a
  success, is still in the queue after the run, as it was. However many runs are made
  while every upload fails, the queue stays what it was: nothing expires. An entry that
  has left the queue after some runs had, in one of them, a fetch that resolved with a
  success response.
\<close>

theorem failed_upload_keeps_entry:
  "(distinct (map item_id store) \<and> i \<in> set store \<and>
    (fetch_of env i = NetworkError \<or> (\<exists>resp. fetch_of env i = Response resp \<and> \<not> ok resp)) \<longrightarrow>
      i \<in> set (fst (uploadQueuedChunks env store))) \<and>
   ((\<forall>env \<in> set envs. \<forall>i \<in> set store.
       fetch_of env i = NetworkError \<or> (\<exists>resp. fetch_of env i = Response resp \<and> \<not> ok resp)) \<longrightarrow>
      sync_runs envs store = store) \<and>
   (distinct (map item_id store) \<and> i \<in> set store \<and> i \<notin> set (sync_runs envs store) \<longrightarrow>
      (\<exists>env \<in> set envs. \<exists>resp. fetch_of env i = Response resp \<and> ok resp))"
proof -
  have keep: "i \<in> set (fst (uploadQueuedChunks env store))"
    if "distinct (map item_id store)" "i \<in> set store"
       "fetch_of env i = NetworkError \<or> (\<exists>resp. fetch_of env i = Response resp \<and> \<not> ok resp)"
    using kept_when_not_confirmed [of i store env] that by (simp add: not_confirmed_iff)
  have never: "sync_runs envs store = store"
    if "\<forall>env \<in> set envs. \<forall>i \<in> set store.
       fetch_of env i = NetworkError \<or> (\<exists>resp. fetch_of env i = Response resp \<and> \<not> ok resp)"
    using sync_runs_unchanged [of envs store] that by (simp add: not_confirmed_iff)
  have only: "\<exists>env \<in> set envs. \<exists>resp. fetch_of env i = Response resp \<and> ok resp"
    if "distinct (map item_id store)" "i \<in> set store" "i \<notin> set (sync_runs envs store)"
    using sync_runs_removed [OF that] by (simp add: confirmed_iff)
  from keep never only show ?thesis by blast
qed

theorem failed_upload_keeps_entry_witness:
  "distinct (map item_id [chunk_a, chunk_b]) \<and> chunk_a \<in> set [chunk_a, chunk_b] \<and>
   fetch_of env_offline chunk_a = NetworkError \<and> fetch_of env_offline chunk_b = NetworkError \<and>
   chunk_a \<in> set (fst (uploadQueuedChunks env_offline [chunk_a, chunk_b])) \<and>
   sync_runs [env_offline, env_offline, env_offline] [chunk_a, chunk_b] = [chunk_a, chunk_b] \<and>
   chunk_a \<notin> set (sync_runs [env_offline, env_plain_200] [chunk_a, chunk_b]) \<and>
   (\<exists>env \<in> set [env_offline, env_plain_200]. \<exists>resp. fetch_of env chunk_a = Response resp \<and> ok resp)"
proof -
  have h1: "distinct (map item_id [chunk_a, chunk_b]) \<and> chunk_a \<in> set [chunk_a, chunk_b] \<and>
      fetch_of env_offline chunk_a = NetworkError"
    by (simp add: env_offline_def chunk_a_def chunk_b_def)
  have h2: "\<forall>env \<in> set [env_offline, env_offline, env_offline]. \<forall>i \<in> set [chunk_a, chunk_b].
       fetch_of env i = NetworkError \<or> (\<exists>resp. fetch_of env i = Response resp \<and> \<not> ok resp)"
    by (simp add: env_offline_def)
  have off: "fst (uploadQueuedChunks env_offline [chunk_a, chunk_b]) = [chunk_a, chunk_b]"
    by (simp add: uploadQueuedChunks_def getAllFromStore_def env_offline_def Let_def case_prod_beta)
  have on: "fst (uploadQueuedChunks env_plain_200 [chunk_a, chunk_b]) = []"
    by (simp add: uploadQueuedChunks_def getAllFromStore_def env_plain_200_def plain_200_def
        ok_def delete_key_def Let_def case_prod_beta chunk_a_def chunk_b_def)
  have h3: "chunk_a \<notin> set (sync_runs [env_offline, env_plain_200] [chunk_a, chunk_b])"
    by (simp add: on_sync_def off on)
  from failed_upload_keeps_entry [of "[chunk_a, chunk_b]" chunk_a env_offline
      "[env_offline, env_offline, env_offline]"] h1 h2
  have a: "chunk_a \<in> set (fst (uploadQueuedChunks env_offline [chunk_a, chunk_b])) \<and>
      sync_runs [env_offline, env_offline, env_offline] [chunk_a, chunk_b] = [chunk_a, chunk_b]"
    by blast
  from failed_upload_keeps_entry [of "[chunk_a, chunk_b]" chunk_a env_offline
      "[env_offline, env_plain_200]"] h1 h3
  have b: "\<exists>env \<in> set [env_offline, env_plain_200]. \<exists>resp. fetch_of env chunk_a = Response resp \<and> ok resp"
    by blast
  have h4: "fetch_of env_offline chunk_b = NetworkError"
    by (simp add: env_offline_def)
  from h1 h3 h4 a b show ?thesis by blast
qed

text \<open>
  C7, as the code has it. On the sync event tagged \<open>upload-audio-chunks\<close> the service
  worker attempts every entry that is in the queue, in ascending order of the keys,
  provided the queue can be read, and on any other tag it attempts nothing. Every request
  it sends is the POST of the chunk of an entry of the queue: the remote endpoint is never
  asked for what it has confirmed.
\<close>

theorem sync_reattempts_whole_queue:
  "attempted (on_sync tag env store) =
     (if tag = ''upload-audio-chunks'' \<and> db_opens env \<and> store_readable env
      then getAllFromStore store else []) \<and>
   set (getAllFromStore store) = set store \<and>
   requests_sent (on_sync tag env store) = map upload_request (attempted (on_sync tag env store)) \<and>
   (\<forall>r \<in> set (requests_sent (on_sync tag env store)).
      http_method r = ''POST'' \<and> (\<exists>c \<in> set store. url r = ''/api/session/'' @ sessionUuid c @ ''/chunk''))"
proof -
  have a: "attempted (on_sync tag env store) =
     (if tag = ''upload-audio-chunks'' \<and> db_opens env \<and> store_readable env
      then getAllFromStore store else [])"
    by (simp add: on_sync_def attempted_uploadQueuedChunks) (simp add: attempted_def)
  have r: "requests_sent (on_sync tag env store) = map upload_request (attempted (on_sync tag env store))"
    by (simp add: on_sync_def requests_uploadQueuedChunks) (simp add: attempted_def requests_sent_def)
  have p: "\<forall>r \<in> set (requests_sent (on_sync tag env store)).
      http_method r = ''POST'' \<and> (\<exists>c \<in> set store. url r = ''/api/session/'' @ sessionUuid c @ ''/chunk'')"
    unfolding r a by (auto simp: set_getAllFromStore upload_request_def)
  from a r p show ?thesis by (simp add: set_getAllFromStore)
qed

theorem sync_reattempts_whole_queue_witness:
  "attempted (on_sync ''upload-audio-chunks'' env_offline [chunk_b, chunk_a]) = [chunk_a, chunk_b] \<and>
   requests_sent (on_sync ''upload-audio-chunks'' env_offline [chunk_b, chunk_a]) =
     [upload_request chunk_a, upload_request chunk_b] \<and>
   http_method (upload_request chunk_a) = ''POST''"
proof -
  have s: "getAllFromStore [chunk_b, chunk_a] = [chunk_a, chunk_b]"
    by (simp add: getAllFromStore_def chunk_a_def chunk_b_def)
  have e: "db_opens env_offline \<and> store_readable env_offline"
    by (simp add: env_offline_def)
  from sync_reattempts_whole_queue [of "''upload-audio-chunks''" env_offline "[chunk_b, chunk_a]"] s e
  show ?thesis by simp
qed

text \<open>
  The claim as stated fails. The first chunk was uploaded and acknowledged, but the
  database could not be opened to delete its entry, so the entry stayed. At the next sync
  event both entries are attempted, where reconciliation as specified would enqueue only
  the chunk above the confirmed number.
\<close>

theorem reconciliation_counterexample:
  "fetch_of env_delete_fails chunk_a =
      Response \<lparr>status = 200, rtype = ''basic'', acknowledgment = Some (''s1'', 1)\<rparr> \<and>
   fst (on_sync ''upload-audio-chunks'' env_delete_fails [chunk_a, chunk_b]) = [chunk_a, chunk_b] \<and>
   attempted (on_sync ''upload-audio-chunks'' env_offline [chunk_a, chunk_b]) = [chunk_a, chunk_b] \<and>
   reenqueue_above confirmed_up_to_1 [chunk_a, chunk_b] = [chunk_b]"
proof -
  have s: "getAllFromStore [chunk_a, chunk_b] = [chunk_a, chunk_b]"
    by (simp add: getAllFromStore_def chunk_a_def chunk_b_def)
  have 1: "fetch_of env_delete_fails chunk_a =
      Response \<lparr>status = 200, rtype = ''basic'', acknowledgment = Some (''s1'', 1)\<rparr>"
    by (simp add: env_delete_fails_def chunk_a_def)
  have 2: "fst (on_sync ''upload-audio-chunks'' env_delete_fails [chunk_a, chunk_b]) = [chunk_a, chunk_b]"
    by (simp add: on_sync_def uploadQueuedChunks_def s)
       (simp add: env_delete_fails_def Let_def case_prod_beta split: fetch_outcome.splits)
  have 3: "attempted (on_sync ''upload-audio-chunks'' env_offline [chunk_a, chunk_b]) = [chunk_a, chunk_b]"
    by (simp add: on_sync_def attempted_uploadQueuedChunks s) (simp add: env_offline_def)
  have 4: "reenqueue_above confirmed_up_to_1 [chunk_a, chunk_b] = [chunk_b]"
    by (simp add: reenqueue_above_def confirmed_up_to_1_def chunk_a_def chunk_b_def)
  from 1 2 3 4 show ?thesis by simp
qed

section \<open>Properties of the fetch handler\<close>

text \<open>
  C9. For a request whose path starts with \<open>/api/\<close> the handler returns without
  responding, so the browser sends the request to the network itself; nothing is served
  from the cache, whatever the cache holds, and the cache is left as it was, whatever the
  network answers.
\<close>

theorem api_requests_bypass_cache:
  "prefix ''/api/'' (pathname ev) \<Longrightarrow>
     fst (on_fetch ev net c) = None \<and> snd (on_fetch ev net c) = c \<and>
     (\<forall>r. fst (on_fetch ev net c) \<noteq> Some (FromCache r))"
  by (simp add: on_fetch_def)

theorem api_requests_bypass_cache_witness:
  "prefix ''/api/'' (pathname api_health) \<and>
   caches_match cached_api (req_method api_health) (req_url api_health) = Some plain_200 \<and>
   fst (on_fetch api_health (Response plain_200) cached_api) = None \<and>
   snd (on_fetch api_health (Response plain_200) cached_api) = cached_api"
proof -
  have h: "prefix ''/api/'' (pathname api_health)"
    by (simp add: api_health_def)
  have m: "caches_match cached_api (req_method api_health) (req_url api_health) = Some plain_200"
    by (simp add: caches_match_def cached_api_def api_health_def)
  from api_requests_bypass_cache [OF h, of "Response plain_200" cached_api] h m
  show ?thesis by simp
qed

section \<open>Properties of the translation engine\<close>

lemma normalize_lang_supported: "normalize_lang lang \<in> set SUPPORTED_LANGS"
  by (cases lang) (simp_all add: normalize_lang_def SUPPORTED_LANGS_def)

lemma getPreferredLang_supported: "getPreferredLang storage nav \<in> set SUPPORTED_LANGS"
  by (auto simp: getPreferredLang_def Let_def SUPPORTED_LANGS_def split: option.splits)

lemma applyTranslations_fields:
  "currentLang (applyTranslations p) = currentLang p"
  "doc_dir (applyTranslations p) = (if currentLang p = ''ar'' then ''rtl'' else ''ltr'')"
  by (simp_all add: applyTranslations_def RTL_LANGS_def)

lemma applyTranslations_invariant:
  "currentLang p \<in> set SUPPORTED_LANGS \<Longrightarrow> lang_invariant (applyTranslations p)"
  by (auto simp: lang_invariant_def applyTranslations_fields SUPPORTED_LANGS_def)

lemma setLanguage_current: "currentLang (setLanguage files lang p) = normalize_lang lang"
  by (simp add: setLanguage_def setLanguage_finish_def setLanguage_begin_def Let_def
      applyTranslations_fields)

lemma setLanguage_invariant: "lang_invariant (setLanguage files lang p)"
  unfolding setLanguage_def setLanguage_finish_def
  by (rule applyTranslations_invariant)
     (simp add: setLanguage_begin_def Let_def normalize_lang_supported)

lemma i18n_step_supported:
  "currentLang p \<in> set SUPPORTED_LANGS \<Longrightarrow> currentLang (i18n_step p ev) \<in> set SUPPORTED_LANGS"
  by (cases ev)
     (simp_all add: setLanguage_begin_def setLanguage_finish_def Let_def applyTranslations_fields
        normalize_lang_supported)

lemma foldl_i18n_supported:
  "currentLang p \<in> set SUPPORTED_LANGS \<Longrightarrow> currentLang (foldl i18n_step p evs) \<in> set SUPPORTED_LANGS"
  by (induction evs arbitrary: p) (simp_all add: i18n_step_supported)

lemma module_load_supported: "currentLang (module_load nav doc) \<in> set SUPPORTED_LANGS"
  by (simp add: module_load_def Let_def getPreferredLang_supported)

lemma completing_step_invariant:
  "currentLang p \<in> set SUPPORTED_LANGS \<Longrightarrow> completes ev \<Longrightarrow> lang_invariant (i18n_step p ev)"
  by (cases ev) (simp_all add: setLanguage_finish_def applyTranslations_invariant)

lemma auto_init_invariant: "lang_invariant (auto_init files nav doc)"
  by (simp add: auto_init_def Let_def setLanguage_invariant)

text \<open>
  C10. After \<open>setLanguage\<close> completes, for any argument and any state before, the
  current language is one of the five supported codes: the argument when it is supported,
  \<open>en\<close> when it is not; and the direction of the document is \<open>rtl\<close> exactly when the
  language is \<open>ar\<close>. The invariant holds once the call made at load time has completed,
  and from then on at every point where a call completes, however the calls that follow
  overlap.
\<close>

theorem setLanguage_establishes_invariant:
  "currentLang (setLanguage files lang p) \<in> {''en'', ''es'', ''zh'', ''hi'', ''ar''} \<and>
   (\<not> supported_arg lang \<longrightarrow> currentLang (setLanguage files lang p) = ''en'') \<and>
   (supported_arg lang \<longrightarrow> Str (currentLang (setLanguage files lang p)) = lang) \<and>
   ((doc_dir (setLanguage files lang p) = ''rtl'') = (currentLang (setLanguage files lang p) = ''ar'')) \<and>
   lang_invariant (auto_init files nav doc) \<and>
   (completes ev \<longrightarrow> lang_invariant (i18n_step (foldl i18n_step (module_load nav doc) evs) ev))"
proof -
  have inv: "lang_invariant (setLanguage files lang p)" by (rule setLanguage_invariant)
  have un: "\<not> supported_arg lang \<longrightarrow> currentLang (setLanguage files lang p) = ''en''"
    by (cases lang) (simp_all add: setLanguage_current normalize_lang_def supported_arg_def)
  have su: "supported_arg lang \<longrightarrow> Str (currentLang (setLanguage files lang p)) = lang"
    by (cases lang) (simp_all add: setLanguage_current normalize_lang_def supported_arg_def)
  have as: "completes ev \<longrightarrow> lang_invariant (i18n_step (foldl i18n_step (module_load nav doc) evs) ev)"
    using completing_step_invariant [OF foldl_i18n_supported [OF module_load_supported]] by blast
  from inv un su as auto_init_invariant [of files nav doc]
  show ?thesis by (simp add: lang_invariant_def)
qed

theorem setLanguage_establishes_invariant_witness:
  "\<not> supported_arg (Str ''fr'') \<and> currentLang (setLanguage no_files (Str ''fr'') blank_page) = ''en'' \<and>
   supported_arg (Str ''ar'') \<and> currentLang (setLanguage no_files (Str ''ar'') blank_page) = ''ar'' \<and>
   doc_dir (setLanguage no_files (Str ''ar'') blank_page) = ''rtl'' \<and>
   completes (Finish Map.empty) \<and>
   lang_invariant (i18n_step (foldl i18n_step (module_load None blank_page) [Begin (Str ''ar''), Begin Null])
      (Finish Map.empty))"
proof -
  have h: "\<not> supported_arg (Str ''fr'')" "supported_arg (Str ''ar'')" "completes (Finish Map.empty)"
    by (simp_all add: supported_arg_def SUPPORTED_LANGS_def)
  from setLanguage_establishes_invariant [of no_files "Str ''fr''" blank_page]
  have 1: "currentLang (setLanguage no_files (Str ''fr'') blank_page) = ''en''"
    using h(1) by blast
  from setLanguage_establishes_invariant [of no_files "Str ''ar''" blank_page None blank_page
      "Finish Map.empty" "[Begin (Str ''ar''), Begin Null]"] h(2,3)
  have 2: "currentLang (setLanguage no_files (Str ''ar'') blank_page) = ''ar''"
    and 3: "doc_dir (setLanguage no_files (Str ''ar'') blank_page) = ''rtl''"
    and 4: "lang_invariant (i18n_step (foldl i18n_step (module_load None blank_page)
        [Begin (Str ''ar''), Begin Null]) (Finish Map.empty))"
    by auto
  from h 1 2 3 4 show ?thesis by simp
qed

section \<open>Properties of the capture pipeline\<close>

lemma gapless_seal: "gapless r \<Longrightarrow> gapless (seal w r)"
  by (auto simp: gapless_def seal_def put_def listSealed_def split: option.splits)

lemma seal_active [simp]: "active (seal w r) = active r"
  by (simp add: seal_def put_def split: option.splits)

lemma seal_running [simp]: "running (seal w r) = running r"
  by (simp add: seal_def put_def split: option.splits)

lemma gapless_update:
  "gapless r \<Longrightarrow> gapless (r\<lparr>interrupted := b\<rparr>)"
  "gapless r \<Longrightarrow> gapless (r\<lparr>running := b\<rparr>)"
  "gapless r \<Longrightarrow> gapless (r\<lparr>buffered := n, elapsed := e\<rparr>)"
  "gapless r \<Longrightarrow> gapless (r\<lparr>active := None\<rparr>)"
  by (simp_all add: gapless_def listSealed_def)

lemma gapless_step: "gapless r \<Longrightarrow> gapless (capture_step r ev)"
proof (cases ev)
  case (Start sid)
  assume "gapless r"
  then show ?thesis using Start by (simp add: gapless_def listSealed_def)
next
  case (Audio w)
  assume "gapless r"
  then show ?thesis using Audio
    by (auto simp: Let_def gapless_seal gapless_update split: option.splits)
next
  case (Flush w)
  assume "gapless r"
  then show ?thesis using Flush by (simp add: gapless_seal)
next
  case (Interrupt w)
  assume "gapless r"
  then show ?thesis using Interrupt by (simp add: gapless_seal gapless_update)
next
  case (Resume w)
  assume "gapless r"
  then show ?thesis using Resume by (simp add: Let_def gapless_seal gapless_update)
next
  case (Stop w)
  assume "gapless r"
  then show ?thesis using Stop by (simp add: Let_def gapless_seal gapless_update)
next
  case Crash
  assume "gapless r"
  then show ?thesis using Crash by (simp add: gapless_def listSealed_def)
next
  case Restart
  assume "gapless r"
  then show ?thesis using Restart by (simp add: gapless_update)
qed

lemma gapless_foldl: "gapless r \<Longrightarrow> gapless (foldl capture_step r evs)"
  by (induction evs arbitrary: r) (simp_all add: gapless_step)

lemma gapless_init: "gapless (recorder_init d)"
  by (simp add: gapless_def recorder_init_def listSealed_def)

lemma sealed_duration_simps [simp]:
  "sealed_duration (r\<lparr>interrupted := b\<rparr>) sid = sealed_duration r sid"
  "sealed_duration (r\<lparr>running := b\<rparr>) sid = sealed_duration r sid"
  "sealed_duration (r\<lparr>active := a\<rparr>) sid = sealed_duration r sid"
  "sealed_duration (r\<lparr>buffered := n\<rparr>) sid = sealed_duration r sid"
  "sealed_duration (r\<lparr>nextSequence := n\<rparr>) sid = sealed_duration r sid"
  "sealed_duration (r\<lparr>elapsed := e\<rparr>) sid = sealed_duration r sid"
  by (simp_all add: sealed_duration_def listSealed_def)

lemma seal_chunkDuration [simp]: "chunkDuration (seal w r) = chunkDuration r"
  by (simp add: seal_def put_def split: option.splits)

lemma seal_elapsed [simp]: "elapsed (seal w r) = elapsed r"
  by (simp add: seal_def put_def split: option.splits)

lemma buffer_bounded_seal: "buffer_bounded r \<Longrightarrow> buffer_bounded (seal w r)"
  by (auto simp: buffer_bounded_def seal_def put_def split: option.splits)

lemma buffer_bounded_audio:
  assumes "buffer_bounded r"
  shows "buffer_bounded (capture_step r (Audio w))"
proof (cases "active r")
  case None
  with assms show ?thesis by simp
next
  case (Some sid)
  show ?thesis
  proof (cases "running r \<and> \<not> interrupted r")
    case False
    with assms Some show ?thesis by auto
  next
    case True
    let ?r' = "r\<lparr>buffered := buffered r + 1, elapsed := (elapsed r)(sid := elapsed r sid + 1)\<rparr>"
    from assms True have lt: "buffered r < chunkDuration r" and pos: "0 < chunkDuration r"
      by (simp_all add: buffer_bounded_def)
    show ?thesis
    proof (cases "chunkDuration r \<le> buffered r + 1")
      case False
      with assms True Some show ?thesis by (simp add: Let_def buffer_bounded_def)
    next
      case full: True
      have "buffer_bounded (seal w ?r')"
        using lt pos Some by (auto simp: buffer_bounded_def seal_def put_def)
      with True Some full show ?thesis by (simp add: Let_def)
    qed
  qed
qed

lemma buffer_bounded_step: "buffer_bounded r \<Longrightarrow> buffer_bounded (capture_step r ev)"
proof (cases ev)
  case (Start sid)
  assume "buffer_bounded r"
  then show ?thesis using Start by (simp add: buffer_bounded_def)
next
  case (Audio w)
  assume "buffer_bounded r"
  then show ?thesis using Audio by (simp only: buffer_bounded_audio)
next
  case (Flush w)
  assume "buffer_bounded r"
  then show ?thesis using Flush by (simp add: buffer_bounded_seal)
next
  case (Interrupt w)
  assume b: "buffer_bounded r"
  from b buffer_bounded_seal [OF b, of w] show ?thesis using Interrupt
    by (simp add: buffer_bounded_def)
next
  case (Resume w)
  assume b: "buffer_bounded r"
  from b buffer_bounded_seal [OF b, of w] show ?thesis using Resume
    by (simp add: Let_def buffer_bounded_def)
next
  case (Stop w)
  assume b: "buffer_bounded r"
  from b buffer_bounded_seal [OF b, of w] show ?thesis using Stop
    by (simp add: Let_def buffer_bounded_def)
next
  case Crash
  assume "buffer_bounded r"
  then show ?thesis using Crash by (simp add: buffer_bounded_def)
next
  case Restart
  assume "buffer_bounded r"
  then show ?thesis using Restart by (simp add: buffer_bounded_def)
qed

lemma buffer_bounded_foldl: "buffer_bounded r \<Longrightarrow> buffer_bounded (foldl capture_step r evs)"
  by (induction evs arbitrary: r) (simp_all add: buffer_bounded_step)

lemma buffer_bounded_run: "0 < d \<Longrightarrow> buffer_bounded (capture_run d evs)"
  unfolding capture_run_def
  by (rule buffer_bounded_foldl) (simp add: buffer_bounded_def recorder_init_def)

lemma chunkDuration_step: "chunkDuration (capture_step r ev) = chunkDuration r"
  by (cases ev) (simp_all add: Let_def seal_def put_def split: option.splits)

lemma chunkDuration_run: "chunkDuration (capture_run d evs) = d"
  unfolding capture_run_def
  by (induction evs rule: rev_induct) (simp_all add: recorder_init_def chunkDuration_step)

lemma unsealed_bounded: "buffer_bounded r \<Longrightarrow> unsealed r sid \<le> chunkDuration r"
  by (simp add: unsealed_def buffer_bounded_def)

lemma kill_keeps_store: "sealed_duration (capture_step r Crash) sid = sealed_duration r sid"
  by (simp add: sealed_duration_def listSealed_def)

lemma balance_seal:
  "sealed_duration (seal w r) sid + unsealed (seal w r) sid = sealed_duration r sid + unsealed r sid"
  by (auto simp: seal_def put_def unsealed_def sealed_duration_def listSealed_def split: option.splits)

lemma elapsed_seal: "elapsed (seal w r) = elapsed r"
  by (simp add: seal_def put_def split: option.splits)

lemma balance_fields:
  "sealed_duration (r\<lparr>interrupted := b\<rparr>) sid = sealed_duration r sid"
  "unsealed (r\<lparr>interrupted := b\<rparr>) sid = unsealed r sid"
  "sealed_duration (r\<lparr>running := b\<rparr>) sid = sealed_duration r sid"
  "unsealed (r\<lparr>running := b\<rparr>) sid = unsealed r sid"
  by (simp_all add: sealed_duration_def listSealed_def unsealed_def)

lemma balance_audio:
  "elapsed (capture_step r (Audio w)) sid + (sealed_duration r sid + unsealed r sid) =
   elapsed r sid + (sealed_duration (capture_step r (Audio w)) sid + unsealed (capture_step r (Audio w)) sid)"
proof (cases "active r")
  case None
  then show ?thesis by simp
next
  case (Some s)
  let ?r' = "r\<lparr>buffered := buffered r + 1, elapsed := (elapsed r)(s := elapsed r s + 1)\<rparr>"
  have r': "elapsed ?r' sid + (sealed_duration r sid + unsealed r sid) =
      elapsed r sid + (sealed_duration ?r' sid + unsealed ?r' sid)"
    using Some by (simp add: unsealed_def sealed_duration_def listSealed_def)
  show ?thesis
  proof (cases "running r \<and> \<not> interrupted r")
    case False
    with Some show ?thesis by auto
  next
    case True
    show ?thesis
    proof (cases "chunkDuration r \<le> buffered r + 1")
      case False
      with True Some r' show ?thesis by (simp add: Let_def)
    next
      case full: True
      from r' balance_seal [of w ?r' sid]
      have "elapsed (seal w ?r') sid + (sealed_duration r sid + unsealed r sid) =
        elapsed r sid + (sealed_duration (seal w ?r') sid + unsealed (seal w ?r') sid)"
        by (simp only: elapsed_seal)
      with True Some full show ?thesis by (simp add: Let_def)
    qed
  qed
qed

lemma balance_step:
  assumes "buffer_bounded r" "ev \<noteq> Crash"
  shows "elapsed (capture_step r ev) sid + (sealed_duration r sid + unsealed r sid) =
     elapsed r sid + (sealed_duration (capture_step r ev) sid + unsealed (capture_step r ev) sid)"
proof (cases ev)
  case (Start s)
  from assms(1) have "active r = None \<longrightarrow> buffered r = 0" by (simp add: buffer_bounded_def)
  then show ?thesis using Start by (simp add: unsealed_def sealed_duration_def listSealed_def)
next
  case (Audio w)
  then show ?thesis by (simp only: balance_audio)
next
  case (Flush w)
  then show ?thesis using balance_seal [of w r sid] by (simp add: elapsed_seal)
next
  case (Interrupt w)
  then show ?thesis using balance_seal [of w r sid] by (simp add: elapsed_seal balance_fields)
next
  case (Resume w)
  then show ?thesis using balance_seal [of w r sid] by (simp add: Let_def elapsed_seal balance_fields)
next
  case (Stop w)
  have "sealed_duration ((seal w r)\<lparr>active := None\<rparr>) sid + unsealed ((seal w r)\<lparr>active := None\<rparr>) sid =
      sealed_duration (seal w r) sid + unsealed (seal w r) sid" if "buffered (seal w r) = 0"
    using that by (simp add: unsealed_def sealed_duration_def listSealed_def)
  then show ?thesis using Stop balance_seal [of w r sid] by (simp add: Let_def elapsed_seal)
next
  case Crash
  with assms(2) show ?thesis by simp
next
  case Restart
  then show ?thesis by (simp add: balance_fields)
qed

lemma balance_foldl:
  "buffer_bounded r \<Longrightarrow> Crash \<notin> set evs \<Longrightarrow>
     elapsed (foldl capture_step r evs) sid + (sealed_duration r sid + unsealed r sid) =
     elapsed r sid + (sealed_duration (foldl capture_step r evs) sid + unsealed (foldl capture_step r evs) sid)"
proof (induction evs arbitrary: r)
  case Nil
  then show ?case by simp
next
  case (Cons ev evs)
  from Cons.prems have ne: "ev \<noteq> Crash" and rest: "Crash \<notin> set evs" by auto
  from Cons.IH [OF buffer_bounded_step [OF Cons.prems(1), of ev] rest]
    balance_step [OF Cons.prems(1) ne, of sid]
  show ?case by simp
qed

lemma history_split: "up_to_last_kill evs @ since_last_kill evs = evs"
proof -
  have "rev (takeWhile (\<lambda>e. e \<noteq> Crash) (rev evs) @ dropWhile (\<lambda>e. e \<noteq> Crash) (rev evs)) = rev (rev evs)"
    by (simp only: takeWhile_dropWhile_id)
  then show ?thesis
    by (simp only: rev_append rev_rev_ident up_to_last_kill_def since_last_kill_def)
qed

lemma run_split:
  "capture_run d evs = foldl capture_step (capture_run d (up_to_last_kill evs)) (since_last_kill evs)"
proof -
  have "capture_run d (up_to_last_kill evs @ since_last_kill evs) =
      foldl capture_step (capture_run d (up_to_last_kill evs)) (since_last_kill evs)"
    by (simp only: capture_run_def foldl_append)
  then show ?thesis by (simp only: history_split)
qed

lemma since_last_kill_no_crash: "Crash \<notin> set (since_last_kill evs)"
  by (auto simp: since_last_kill_def dest: set_takeWhileD)

lemma up_to_last_kill_cases:
  "up_to_last_kill evs = [] \<or> (\<exists>pre. up_to_last_kill evs = pre @ [Crash])"
proof (cases "dropWhile (\<lambda>e. e \<noteq> Crash) (rev evs)")
  case Nil
  then show ?thesis by (simp add: up_to_last_kill_def)
next
  case (Cons e es)
  then have "e = Crash" using hd_dropWhile [of "\<lambda>e. e \<noteq> Crash" "rev evs"] by auto
  with Cons show ?thesis by (simp add: up_to_last_kill_def)
qed

lemma unsealed_after_kill: "unsealed (capture_run d (up_to_last_kill evs)) sid = 0"
  using up_to_last_kill_cases [of evs]
  by (auto simp: capture_run_def unsealed_def recorder_init_def)

text \<open>
  C4, on the capture pipeline as the specification describes it. In every state reached
  by any list of events, kills, restarts and failed writes included, the sequence numbers
  of the sealed chunks of every session are 0, 1, 2, ... in order, with no gap.
\<close>

theorem sealed_sequences_contiguous:
  "map sequence (listSealed (capture_run d evs) sid) = [0..<length (listSealed (capture_run d evs) sid)]"
  using gapless_foldl [OF gapless_init, of d evs] by (simp add: capture_run_def gapless_def)

theorem sealed_sequences_contiguous_witness:
  "map sequence (listSealed (capture_run 2 seal_crash_restart) ''s'') = [0, 1] \<and>
   length (listSealed (capture_run 2 seal_crash_restart) ''s'') = 2"
proof -
  have l: "length (listSealed (capture_run 2 seal_crash_restart) ''s'') = 2"
    by (simp add: capture_run_def seal_crash_restart_def recorder_init_def listSealed_def
        seal_def put_def Let_def)
  from sealed_sequences_contiguous [of 2 seal_crash_restart "''s''"] l
  have "map sequence (listSealed (capture_run 2 seal_crash_restart) ''s'') = [0..<2]"
    by simp
  also have "[0..<2] = [0, Suc 0]" by (simp add: upt_rec)
  finally show ?thesis using l by simp
qed

text \<open>
  C1, as the capture pipeline of the specification has it. With a positive chunk duration
  and whatever has happened before, earlier kills included, a kill loses of every session
  only what is captured and not sealed, which is at most one chunk duration: what is
  sealed stays. So at every termination point the audio captured since the process was
  last started is at most what was sealed since then plus one chunk duration; and for a
  session that had lost nothing when the process was last started, the total sealed
  duration is at least the elapsed recording time minus one chunk duration.
\<close>

theorem kill_loses_at_most_one_chunk:
  assumes "0 < d"
  shows "unsealed (capture_run d evs) sid \<le> d \<and>
     sealed_duration (capture_step (capture_run d evs) Crash) sid = sealed_duration (capture_run d evs) sid \<and>
     unsealed (capture_step (capture_run d evs) Crash) sid = 0 \<and>
     elapsed (capture_run d evs) sid + sealed_duration (capture_run d (up_to_last_kill evs)) sid \<le>
       sealed_duration (capture_step (capture_run d evs) Crash) sid +
       elapsed (capture_run d (up_to_last_kill evs)) sid + d \<and>
     (elapsed (capture_run d (up_to_last_kill evs)) sid =
        sealed_duration (capture_run d (up_to_last_kill evs)) sid \<longrightarrow>
      elapsed (capture_run d evs) sid \<le> sealed_duration (capture_step (capture_run d evs) Crash) sid + d)"
proof -
  let ?before = "capture_run d (up_to_last_kill evs)"
  let ?now = "capture_run d evs"
  have run: "?now = foldl capture_step ?before (since_last_kill evs)"
    by (rule run_split)
  from unsealed_bounded [OF buffer_bounded_run [OF assms], of evs sid]
  have u: "unsealed ?now sid \<le> d" by (simp add: chunkDuration_run)
  from balance_foldl [OF buffer_bounded_run [OF assms] since_last_kill_no_crash, of "up_to_last_kill evs" evs sid]
  have "elapsed ?now sid + (sealed_duration ?before sid + unsealed ?before sid) =
      elapsed ?before sid + (sealed_duration ?now sid + unsealed ?now sid)"
    by (simp only: run [symmetric])
  then have b: "elapsed ?now sid + sealed_duration ?before sid =
      elapsed ?before sid + (sealed_duration ?now sid + unsealed ?now sid)"
    by (simp add: unsealed_after_kill)
  from u b show ?thesis by (simp add: kill_keeps_store unsealed_def)
qed

theorem kill_loses_at_most_one_chunk_witness:
  "0 < (3::nat) \<and>
   elapsed (capture_run 3 (up_to_last_kill two_kills)) ''s'' = 2 \<and>
   sealed_duration (capture_run 3 (up_to_last_kill two_kills)) ''s'' = 0 \<and>
   unsealed (capture_run 3 two_kills) ''s'' = 2 \<and>
   elapsed (capture_run 3 two_kills) ''s'' + sealed_duration (capture_run 3 (up_to_last_kill two_kills)) ''s'' \<le>
     sealed_duration (capture_step (capture_run 3 two_kills) Crash) ''s'' +
     elapsed (capture_run 3 (up_to_last_kill two_kills)) ''s'' + 3 \<and>
   elapsed (capture_run 2 (up_to_last_kill three_units)) ''s'' =
     sealed_duration (capture_run 2 (up_to_last_kill three_units)) ''s'' \<and>
   elapsed (capture_run 2 three_units) ''s'' \<le>
     sealed_duration (capture_step (capture_run 2 three_units) Crash) ''s'' + 2"
proof -
  have u: "up_to_last_kill two_kills = [Start ''s'', Audio True, Audio True, Crash]"
    "up_to_last_kill three_units = []"
    by (simp_all add: up_to_last_kill_def two_kills_def three_units_def)
  have b: "elapsed (capture_run 3 (up_to_last_kill two_kills)) ''s'' = 2"
    "sealed_duration (capture_run 3 (up_to_last_kill two_kills)) ''s'' = 0"
    by (simp_all add: u capture_run_def recorder_init_def sealed_duration_def listSealed_def
        seal_def put_def Let_def)
  have n: "unsealed (capture_run 3 two_kills) ''s'' = 2"
    by (simp add: two_kills_def capture_run_def recorder_init_def unsealed_def listSealed_def
        seal_def put_def Let_def)
  have f: "elapsed (capture_run 2 (up_to_last_kill three_units)) ''s'' =
     sealed_duration (capture_run 2 (up_to_last_kill three_units)) ''s''"
    by (simp add: u capture_run_def recorder_init_def sealed_duration_def listSealed_def)
  have p: "0 < (3::nat)" "0 < (2::nat)" by simp_all
  from kill_loses_at_most_one_chunk [OF p(1), of two_kills "''s''"]
    kill_loses_at_most_one_chunk [OF p(2), of three_units "''s''"] f
  have "elapsed (capture_run 3 two_kills) ''s'' + sealed_duration (capture_run 3 (up_to_last_kill two_kills)) ''s'' \<le>
     sealed_duration (capture_step (capture_run 3 two_kills) Crash) ''s'' +
     elapsed (capture_run 3 (up_to_last_kill two_kills)) ''s'' + 3"
    and "elapsed (capture_run 2 three_units) ''s'' \<le>
     sealed_duration (capture_step (capture_run 2 three_units) Crash) ''s'' + 2"
    by blast+
  with p b n f show ?thesis by simp
qed

text \<open>
  The claim as stated fails on a session that is killed twice: the losses of the two
  kills add up. With chunks of three time units, a session killed after two units,
  resumed and killed after two more has four units elapsed and nothing sealed.
\<close>

theorem second_kill_counterexample:
  "elapsed (capture_run 3 two_kills) ''s'' = 4 \<and>
   sealed_duration (capture_step (capture_run 3 two_kills) Crash) ''s'' = 0 \<and>
   \<not> elapsed (capture_run 3 two_kills) ''s'' \<le>
       sealed_duration (capture_step (capture_run 3 two_kills) Crash) ''s'' + 3"
proof -
  have e: "elapsed (capture_run 3 two_kills) ''s'' = 4"
    by (simp add: two_kills_def capture_run_def recorder_init_def listSealed_def
        seal_def put_def Let_def)
  have s: "sealed_duration (capture_step (capture_run 3 two_kills) Crash) ''s'' = 0"
    by (simp add: two_kills_def capture_run_def recorder_init_def listSealed_def
        sealed_duration_def seal_def put_def Let_def)
  from e s show ?thesis by simp
qed

end
